theory Spec2Isabelle
  imports Main "HOL-Library.Sublist"
begin

section \<open>Text primitives of the parser\<close>

text \<open>
  The source works on Python \<open>str\<close> values. A \<^typ>\<open>char\<close> of the model stands for one
  code point of the text: the codes below 128 are the ASCII characters, the codes from 128 on
  stand for code points that have no case mapping and are not whitespace. On this alphabet
  \<open>str.upper\<close>, \<open>str.isspace\<close>, the class \<open>\s\<close> and \<open>re.IGNORECASE\<close> act as written here,
  and \<open>len\<close> is \<^const>\<open>length\<close>.
\<close>

definition is_space :: "char \<Rightarrow> bool" where
  \<comment> \<open>\<open>str.isspace\<close> and the class \<open>\s\<close>: TAB, LF, VT, FF, CR, the separators FS to US, space.\<close>
  "is_space c \<longleftrightarrow>
     c \<in> set [CHR 0x09, CHR 0x0A, CHR 0x0B, CHR 0x0C, CHR 0x0D,
                CHR 0x1C, CHR 0x1D, CHR 0x1E, CHR 0x1F, CHR 0x20]"

definition is_digit :: "char \<Rightarrow> bool" where
  "is_digit c \<longleftrightarrow> c \<in> set ''0123456789''"

definition to_upper :: "char \<Rightarrow> char" where
  \<comment> \<open>The case mapping of \<open>str.upper\<close>, one character at a time.\<close>
  "to_upper c =
     (case map_of (zip ''abcdefghijklmnopqrstuvwxyz'' ''ABCDEFGHIJKLMNOPQRSTUVWXYZ'') c of
        Some u \<Rightarrow> u
      | None \<Rightarrow> c)"

definition str_upper :: "string \<Rightarrow> string" where
  \<comment> \<open>\<open>response_text.upper()\<close>\<close>
  "str_upper s = map to_upper s"

fun find_from :: "string \<Rightarrow> string \<Rightarrow> nat \<Rightarrow> nat option" where
  "find_from sub [] i = (if sub = [] then Some i else None)"
| "find_from sub (x # xs) i = (if prefix sub (x # xs) then Some i else find_from sub xs (Suc i))"

definition str_find :: "string \<Rightarrow> string \<Rightarrow> nat option" where
  \<comment> \<open>\<open>s.find(sub)\<close>: the index of the first occurrence; \<open>None\<close> is Python's \<open>-1\<close>.\<close>
  "str_find s sub = find_from sub s 0"

definition first_at :: "string \<Rightarrow> string \<Rightarrow> nat \<Rightarrow> bool" where
  \<comment> \<open>The first occurrence of \<open>m\<close> in \<open>s\<close> starts at index \<open>d\<close>.\<close>
  "first_at m s d \<longleftrightarrow>
     d \<le> length s \<and> prefix m (drop d s) \<and> (\<forall>i\<in>{..<d}. \<not> prefix m (drop i s))"

definition slice :: "'a list \<Rightarrow> nat \<Rightarrow> nat \<Rightarrow> 'a list" where
  \<comment> \<open>\<open>s[a:b]\<close> for indices that are not negative: empty when \<open>b \<le> a\<close>, clipped to the text.\<close>
  "slice s a b = (if b \<le> a then [] else take (b - a) (drop a s))"

definition slice_from :: "'a list \<Rightarrow> nat \<Rightarrow> 'a list" where
  \<comment> \<open>\<open>s[a:]\<close>\<close>
  "slice_from s a = drop a s"

definition slice_to :: "'a list \<Rightarrow> int \<Rightarrow> 'a list" where
  \<comment> \<open>\<open>xs[:c]\<close>: a negative \<open>c\<close> counts from the end.\<close>
  "slice_to xs c = (if c < 0 then take (length xs - nat (- c)) xs else take (nat c) xs)"

definition strip :: "string \<Rightarrow> string" where
  \<comment> \<open>\<open>s.strip()\<close>\<close>
  "strip s = rev (dropWhile is_space (rev (dropWhile is_space s)))"

function split_ws :: "string \<Rightarrow> string list" where
  \<comment> \<open>\<open>s.split()\<close>: the maximal runs of characters that are not whitespace.\<close>
  "split_ws s =
     (case dropWhile is_space s of
        [] \<Rightarrow> []
      | c # cs \<Rightarrow> (c # takeWhile (\<lambda>x. \<not> is_space x) cs) # split_ws (dropWhile (\<lambda>x. \<not> is_space x) cs))"
  by pat_completeness auto
termination
proof (relation "measure length")
  show "wf (measure length)" by simp
next
  fix s :: string and c cs
  assume a: "dropWhile is_space s = c # cs"
  have "length (dropWhile (\<lambda>x. \<not> is_space x) cs) \<le> length cs"
    by (rule length_dropWhile_le)
  moreover have "length (c # cs) \<le> length s"
    using length_dropWhile_le [of is_space s] a by simp
  ultimately show "(dropWhile (\<lambda>x. \<not> is_space x) cs, s) \<in> measure length"
    by simp
qed

declare split_ws.simps [simp del]

fun join_sp :: "string list \<Rightarrow> string" where
  \<comment> \<open>\<open>' '.join(ws)\<close>\<close>
  "join_sp [] = []"
| "join_sp [w] = w"
| "join_sp (w # v # ws) = w @ '' '' @ join_sp (v # ws)"

definition normalize :: "string \<Rightarrow> string" where
  \<comment> \<open>\<open>' '.join(g.strip().split())\<close>\<close>
  "normalize g = join_sp (split_ws (strip g))"

definition digit_char :: "nat \<Rightarrow> char" where
  \<comment> \<open>The digit of a number below ten.\<close>
  "digit_char d = ''0123456789'' ! d"

fun dec :: "nat \<Rightarrow> string" where
  \<comment> \<open>The decimal numeral an f-string writes for a natural number.\<close>
  "dec n = (if n < 10 then [digit_char n] else dec (n div 10) @ [digit_char (n mod 10)])"

declare dec.simps [simp del]

definition str_int :: "int \<Rightarrow> string" where
  \<comment> \<open>\<open>f"{i}"\<close> for an \<open>int\<close>\<close>
  "str_int i = (if i < 0 then CHR ''-'' # dec (nat (- i)) else dec (nat i))"

section \<open>The regular expressions of the parser\<close>

text \<open>
  The three patterns of \<open>parse_gemini_response\<close> have one shape,
  \<^verbatim>\<open>Word\s*{i}\s*:\s*(.+?)(?=Word\s*{i+1}\s*:|MARKER:|$)\<close>,
  searched with \<open>re.IGNORECASE | re.DOTALL\<close>. An atom is a literal character (compared without
  case), the greedy \<open>\s*\<close>, or \<open>$\<close> (without \<open>re.MULTILINE\<close>: the end of the text, or just before a
  final line feed). The matcher backtracks as \<open>re\<close> does: \<open>\s*\<close> takes the longest run first and
  gives characters back one at a time; \<open>(.+?)\<close> takes one character and grows until what
  follows matches. The continuation \<open>k\<close> is the rest of the pattern.
\<close>

datatype atom = Lit char | Spaces | Dollar

fun match_atoms :: "atom list \<Rightarrow> (string \<Rightarrow> 'r option) \<Rightarrow> string \<Rightarrow> 'r option" where
  "match_atoms [] k s = k s"
| "match_atoms (Lit c # r) k [] = None"
| "match_atoms (Lit c # r) k (x # xs) = (if to_upper c = to_upper x then match_atoms r k xs else None)"
| "match_atoms (Spaces # r) k [] = match_atoms r k []"
| "match_atoms (Spaces # r) k (x # xs) =
     (if is_space x
      then (case match_atoms (Spaces # r) k xs of
              Some g \<Rightarrow> Some g
            | None \<Rightarrow> match_atoms r k (x # xs))
      else match_atoms r k (x # xs))"
| "match_atoms (Dollar # r) k s = (if s = [] \<or> s = [CHR 0x0A] then match_atoms r k s else None)"

definition lookahead :: "atom list list \<Rightarrow> string \<Rightarrow> bool" where
  \<comment> \<open>\<open>(?=a1|a2|...)\<close>: some alternative matches at the current position.\<close>
  "lookahead alts s = list_ex (\<lambda>a. match_atoms a (\<lambda>_. Some ()) s \<noteq> None) alts"

fun lazy_any :: "(string \<Rightarrow> bool) \<Rightarrow> string \<Rightarrow> string \<Rightarrow> string option" where
  \<comment> \<open>\<open>(.+?)\<close> followed by a lookahead \<open>ok\<close>: the shortest non-empty capture after which \<open>ok\<close> holds;
      \<open>acc\<close> is what the group has taken so far.\<close>
  "lazy_any ok acc [] = None"
| "lazy_any ok acc (x # xs) = (if ok xs then Some (acc @ [x]) else lazy_any ok (acc @ [x]) xs)"

record pattern =
  before :: "atom list"
  ahead :: "atom list list"

definition match_at :: "pattern \<Rightarrow> string \<Rightarrow> string option" where
  \<comment> \<open>The pattern matched at the start of \<open>s\<close>: group 1 of the match.\<close>
  "match_at p s = match_atoms (before p) (lazy_any (lookahead (ahead p)) []) s"

fun re_search :: "pattern \<Rightarrow> string \<Rightarrow> string option" where
  \<comment> \<open>\<open>re.search\<close>: the match at the leftmost position that has one; \<open>None\<close> when there is none.\<close>
  "re_search p [] = match_at p []"
| "re_search p (x # xs) =
     (case match_at p (x # xs) of Some g \<Rightarrow> Some g | None \<Rightarrow> re_search p xs)"

definition lits :: "string \<Rightarrow> atom list" where
  "lits s = map Lit s"

definition item_pattern :: "string \<Rightarrow> int \<Rightarrow> string list \<Rightarrow> pattern" where
  \<comment> \<open>\<open>rf'Word\s*{i}\s*:\s*(.+?)(?=Word\s*{i+1}\s*:|MARKER:|$)'\<close>, with the markers that stop
      the capture in \<open>stops\<close>.\<close>
  "item_pattern word i stops =
     \<lparr> before = lits word @ [Spaces] @ lits (str_int i) @ [Spaces, Lit CHR '':'', Spaces],
       ahead = (lits word @ [Spaces] @ lits (str_int (i + 1)) @ [Spaces, Lit CHR '':''])
               # map lits stops @ [[Dollar]] \<rparr>"

section \<open>The section parser\<close>

text \<open>
  The three \<open>for\<close> loops of \<open>parse_gemini_response\<close> have one body, up to the label word
  (\<open>Title\<close>, \<open>Description\<close>, \<open>Bullet\<close>), the marker that ends a capture and the minimum
  length (10, 20, 10); \<open>item_step\<close> is that body and \<open>parse_items\<close> the loop. The calls of
  \<open>print\<close> do not change what is returned as long as they succeed; they are left out here and
  taken up in the next section.
\<close>

definition item_step :: "string \<Rightarrow> string list \<Rightarrow> nat \<Rightarrow> string \<Rightarrow> string list \<Rightarrow> int \<Rightarrow> string list" where
  \<comment> \<open>One turn of a \<open>for i in range(1, count + 1)\<close> loop: search the label \<open>i\<close>, normalise the
      capture, append it when it is longer than the minimum.\<close>
  "item_step word stops minlen section acc i =
     (case re_search (item_pattern word i stops) section of
        None \<Rightarrow> acc
      | Some g \<Rightarrow>
          (let content = normalize g
           in if minlen < length content then acc @ [content] else acc))"

definition parse_items :: "string \<Rightarrow> string list \<Rightarrow> nat \<Rightarrow> string \<Rightarrow> int \<Rightarrow> string list" where
  "parse_items word stops minlen section count =
     foldl (item_step word stops minlen section) [] [1..count]"

definition sections :: "string \<Rightarrow> (string \<times> string \<times> string) option" where
  \<comment> \<open>The three slices of the text; \<open>None\<close> when \<open>TITLES:\<close> is not found.\<close>
  "sections response_text =
     (let response_upper = str_upper response_text;
          titles_start = str_find response_upper ''TITLES:'';
          desc_start = str_find response_upper ''DESCRIPTIONS:'';
          bullets_start = str_find response_upper ''BULLETS:''
      in case titles_start of
           None \<Rightarrow> None
         | Some t \<Rightarrow>
             Some
               ((case desc_start of
                   Some d \<Rightarrow> slice response_text (t + 7) d
                 | None \<Rightarrow> slice_from response_text (t + 7)),
                (case desc_start of
                   Some d \<Rightarrow>
                     (case bullets_start of
                        Some b \<Rightarrow> slice response_text (d + 13) b
                      | None \<Rightarrow> slice_from response_text (d + 13))
                 | None \<Rightarrow> []),
                (case bullets_start of
                   Some b \<Rightarrow> slice_from response_text (b + 8)
                 | None \<Rightarrow> [])))"

definition parse_gemini_response ::
  "string \<Rightarrow> int \<Rightarrow> int \<Rightarrow> int \<Rightarrow> string list \<times> string list \<times> string list" where
  "parse_gemini_response response_text title_count desc_count bullet_count =
     (case sections response_text of
        None \<Rightarrow> ([], [], [])
      | Some (titles_section, desc_section, bullets_section) \<Rightarrow>
          (parse_items ''Title'' [''DESCRIPTIONS:''] 10 titles_section title_count,
           parse_items ''Description'' [''BULLETS:''] 20 desc_section desc_count,
           parse_items ''Bullet'' [] 10 bullets_section bullet_count))"

section \<open>The parser with its console\<close>

text \<open>
  \<open>parse_gemini_response\<close> writes to the console as it goes, inside one \<open>try\<close> block whose
  handler catches every \<open>Exception\<close>, writes a line and returns the three lists as they are
  then. Nothing else in the block can raise on a text and three integers, so the console is
  the only source of an internal error. \<^const>\<open>parse_gemini_response\<close> above is the parser with
  a console that takes every line; here the console is a parameter: \<open>con l\<close> says that
  \<open>print\<close> of the line \<open>l\<close> succeeds (it raises otherwise, as on a closed stream or for a
  character the stream's encoding lacks).
\<close>

datatype log =
    Parsing
  | Titles_not_found
  | Found string int string
  | Parsing_error

datatype raised = Print_failed

type_synonym console = "log \<Rightarrow> bool"

definition item_step_logged ::
  "console \<Rightarrow> string \<Rightarrow> string list \<Rightarrow> nat \<Rightarrow> string \<Rightarrow> bool \<times> string list \<Rightarrow> int \<Rightarrow> bool \<times> string list" where
  \<comment> \<open>One turn of a loop. The state is the list so far, with a flag that is set once a
      \<open>print\<close> has raised; the item is appended before its line is written.\<close>
  "item_step_logged con word stops minlen sec st i =
     (case st of
        (True, acc) \<Rightarrow> (True, acc)
      | (False, acc) \<Rightarrow>
          (case re_search (item_pattern word i stops) sec of
             None \<Rightarrow> (False, acc)
           | Some g \<Rightarrow>
               (let content = normalize g
                in if minlen < length content
                   then (\<not> con (Found word i (take 60 content)), acc @ [content])
                   else (False, acc))))"

definition parse_items_logged ::
  "console \<Rightarrow> string \<Rightarrow> string list \<Rightarrow> nat \<Rightarrow> string \<Rightarrow> int \<Rightarrow> bool \<times> string list" where
  "parse_items_logged con word stops minlen sec count =
     foldl (item_step_logged con word stops minlen sec) (False, []) [1..count]"

definition parse_body ::
  "console \<Rightarrow> string \<Rightarrow> int \<Rightarrow> int \<Rightarrow> int \<Rightarrow> bool \<times> string list \<times> string list \<times> string list" where
  \<comment> \<open>The \<open>try\<close> block: whether it was left by an exception, and the three lists at that time.\<close>
  "parse_body con response_text title_count desc_count bullet_count =
     (if \<not> con Parsing then (True, [], [], [])
      else
        (case sections response_text of
           None \<Rightarrow> (\<not> con Titles_not_found, [], [], [])
         | Some (titles_section, desc_section, bullets_section) \<Rightarrow>
             (case parse_items_logged con ''Title'' [''DESCRIPTIONS:''] 10 titles_section title_count of
                (True, ts) \<Rightarrow> (True, ts, [], [])
              | (False, ts) \<Rightarrow>
                  (case parse_items_logged con ''Description'' [''BULLETS:''] 20 desc_section desc_count of
                     (True, ds) \<Rightarrow> (True, ts, ds, [])
                   | (False, ds) \<Rightarrow>
                       (case parse_items_logged con ''Bullet'' [] 10 bullets_section bullet_count of
                          (r, bs) \<Rightarrow> (r, ts, ds, bs))))))"

definition parse_gemini_response_logged ::
  "console \<Rightarrow> string \<Rightarrow> int \<Rightarrow> int \<Rightarrow> int \<Rightarrow> raised + string list \<times> string list \<times> string list" where
  \<comment> \<open>The whole function: the handler writes its line and returns the lists; \<open>Inl\<close> is an
      exception that leaves the function.\<close>
  "parse_gemini_response_logged con response_text title_count desc_count bullet_count =
     (case parse_body con response_text title_count desc_count bullet_count of
        (False, found) \<Rightarrow> Inr found
      | (True, found) \<Rightarrow> if con Parsing_error then Inr found else Inl Print_failed)"

text \<open>Three consoles for the examples: an open one, a closed one, and one that lacks one line.\<close>

definition open_console :: console where
  "open_console l = True"

definition closed_console :: console where
  "closed_console l = False"

definition console_without :: "log \<Rightarrow> console" where
  "console_without bad l \<longleftrightarrow> l \<noteq> bad"

section \<open>The orchestrator and the endpoint\<close>

record request =
  title_prompt :: string
  desc_prompt :: string
  bullet_prompt :: string
  title_data :: string
  desc_data :: string
  bullet_data :: string
  title_count :: int
  desc_count :: int
  bullet_count :: int
  title_length :: int
  desc_length :: int
  bullet_length :: int

text \<open>
  What the browser session does is outside the program; the model takes it as a value.
  \<open>launch\<close>: the message of the exception when the session could not be opened (both launch
  attempts, or the page). \<open>reply\<close>: \<open>None\<close> when a step before the extraction raised
  (navigation, the wait for the input box, the prompt snapshot, sending), else the text that
  \<open>extract_gemini_response\<close> returned. \<open>snapshot\<close>: whether writing \<open>last_response.txt\<close>
  succeeded. \<open>close\<close>: the message of the exception when closing the session raised.
\<close>

record surface =
  launch :: "string option"
  reply :: "string option"
  snapshot :: bool
  close :: "string option"

text \<open>The JSON body; \<open>error = None\<close> is a body without the key \<open>error\<close>.\<close>

record envelope =
  success :: bool
  error :: "string option"
  titles :: "string list"
  descriptions :: "string list"
  bullets :: "string list"

function fill :: "string \<Rightarrow> string list \<Rightarrow> int \<Rightarrow> string list" where
  \<comment> \<open>\<open>while len(xs) < count: xs.append(f"Generated Title {len(xs) + 1}")\<close>\<close>
  "fill label xs count =
     (if int (length xs) < count then fill label (xs @ [label @ dec (length xs + 1)]) count else xs)"
  by pat_completeness auto
termination
  by (relation "measure (\<lambda>(label, xs, count). nat (count - int (length xs)))") auto

declare fill.simps [simp del]

definition generate_lists :: "surface \<Rightarrow> request \<Rightarrow> string list \<times> string list \<times> string list" where
  \<comment> \<open>The three lists when the \<open>try\<close> block of \<open>generate_via_gemini\<close> is left: empty when
      an exception interrupted it, parsed and filled otherwise.\<close>
  "generate_lists srf req =
     (case reply srf of
        None \<Rightarrow> ([], [], [])
      | Some response_text \<Rightarrow>
          if response_text = [] then ([], [], [])
          else if \<not> snapshot srf then ([], [], [])
          else
            (case parse_gemini_response response_text
                    (title_count req) (desc_count req) (bullet_count req) of
               (ts, ds, bs) \<Rightarrow>
                 (fill ''Generated Title '' ts (title_count req),
                  fill ''Generated Description '' ds (desc_count req),
                  fill ''Generated Bullet Point '' bs (bullet_count req))))"

definition generate_via_gemini :: "surface \<Rightarrow> request \<Rightarrow> string + envelope" where
  \<comment> \<open>\<open>Inl\<close>: the exception that leaves the function.\<close>
  "generate_via_gemini srf req =
     (case launch srf of
        Some e \<Rightarrow> Inl e
      | None \<Rightarrow>
          (case generate_lists srf req of
             (ts, ds, bs) \<Rightarrow>
               (case close srf of
                  Some e \<Rightarrow> Inl e
                | None \<Rightarrow>
                    Inr \<lparr> success = (0 < length ts \<or> 0 < length ds \<or> 0 < length bs),
                          error = None,
                          titles = slice_to ts (title_count req),
                          descriptions = slice_to ds (desc_count req),
                          bullets = slice_to bs (bullet_count req) \<rparr>)))"

definition generate_content :: "surface \<Rightarrow> request \<Rightarrow> nat \<times> envelope" where
  \<comment> \<open>\<open>POST /generate\<close>: the status code and the body.\<close>
  "generate_content srf req =
     (case generate_via_gemini srf req of
        Inr result \<Rightarrow> if success result then (200, result) else (500, result)
      | Inl e \<Rightarrow>
          (500, \<lparr> success = False, error = Some e, titles = [], descriptions = [], bullets = [] \<rparr>))"

text \<open>Requests and sessions for the examples below.\<close>

abbreviation counts :: "int \<Rightarrow> int \<Rightarrow> int \<Rightarrow> request" where
  "counts a b c \<equiv>
     \<lparr> title_prompt = ''p'', desc_prompt = ''q'', bullet_prompt = ''r'',
       title_data = [], desc_data = [], bullet_data = [],
       title_count = a, desc_count = b, bullet_count = c,
       title_length = 100, desc_length = 300, bullet_length = 80 \<rparr>"

abbreviation replied :: "string \<Rightarrow> surface" where
  "replied rt \<equiv> \<lparr> launch = None, reply = Some rt, snapshot = True, close = None \<rparr>"

abbreviation interrupted :: surface where
  "interrupted \<equiv> \<lparr> launch = None, reply = None, snapshot = True, close = None \<rparr>"

section \<open>The output grammar\<close>



section \<open>Notions for the proofs\<close>










section \<open>The loops: how many items they produce\<close>

lemma length_upto_nat: "length [1..c] = nat c"
  by simp

lemma length_item_step: "length (item_step word stops minlen sec acc i) \<le> Suc (length acc)"
  by (simp add: item_step_def Let_def split: option.split)

lemma prefix_item_step: "prefix acc (item_step word stops minlen sec acc i)"
  by (simp add: item_step_def Let_def split: option.split)

lemma length_foldl_item_step:
  "length (foldl (item_step word stops minlen sec) acc is) \<le> length acc + length is"
proof (induction "is" arbitrary: acc)
  case Nil
  show ?case by simp
next
  case (Cons i "is")
  have "length (foldl (item_step word stops minlen sec) (item_step word stops minlen sec acc i) is)
          \<le> length (item_step word stops minlen sec acc i) + length is"
    by (rule Cons.IH)
  also have "\<dots> \<le> Suc (length acc) + length is"
    using length_item_step [of word stops minlen sec acc i] by simp
  finally show ?case by simp
qed

lemma length_parse_items: "length (parse_items word stops minlen sec count) \<le> nat count"
  using length_foldl_item_step [of word stops minlen sec "[]" "[1..count]"]
  by (simp add: parse_items_def)

lemma fill_done: "count \<le> int (length xs) \<Longrightarrow> fill label xs count = xs"
  by (subst fill.simps) simp

lemma fill_step:
  "int (length xs) < count \<Longrightarrow> fill label xs count = fill label (xs @ [label @ dec (length xs + 1)]) count"
  by (subst fill.simps) simp

lemma length_fill: "length (fill label xs count) = max (length xs) (nat count)"
proof (induction label xs count rule: fill.induct)
  case (1 label xs count)
  show ?case
  proof (cases "int (length xs) < count")
    case True
    then show ?thesis using 1 by (simp add: fill_step) 
  next
    case False
    then show ?thesis by (simp add: fill_done)
  qed
qed

lemma prefix_fill: "prefix xs (fill label xs count)"
proof (induction label xs count rule: fill.induct)
  case (1 label xs count)
  show ?case
  proof (cases "int (length xs) < count")
    case True
    then have "prefix (xs @ [label @ dec (length xs + 1)]) (fill label xs count)"
      using 1 by (simp add: fill_step)
    then show ?thesis by (rule append_prefixD)
  next
    case False
    then show ?thesis by (simp add: fill_done)
  qed
qed

lemma fill_eq: "fill label xs count = xs @ map (\<lambda>k. label @ dec (Suc k)) [length xs ..< nat count]"
proof (induction label xs count rule: fill.induct)
  case (1 label xs count)
  show ?case
  proof (cases "int (length xs) < count")
    case True
    then have lt: "length xs < nat count" by simp
    have "fill label xs count = (xs @ [label @ dec (length xs + 1)]) @
            map (\<lambda>k. label @ dec (Suc k)) [Suc (length xs) ..< nat count]"
      using 1 True by (simp add: fill_step)
    then show ?thesis using lt by (simp add: upt_conv_Cons)
  next
    case False
    then show ?thesis by (simp add: fill_done)
  qed
qed

lemma slice_to_fill:
  "length xs \<le> nat count \<Longrightarrow> (count < 0 \<Longrightarrow> xs = []) \<Longrightarrow> slice_to (fill label xs count) count = fill label xs count"
  by (cases "count < 0") (auto simp: slice_to_def length_fill fill_done)

section \<open>The orchestrator: what the envelope holds\<close>

lemma parse_items_neg: "count < 1 \<Longrightarrow> parse_items word stops minlen sec count = []"
  by (simp add: parse_items_def)

lemma fill_parse_items_slice:
  "slice_to (fill label (parse_items word stops minlen sec count) count) count =
     fill label (parse_items word stops minlen sec count) count"
proof (rule slice_to_fill)
  show "length (parse_items word stops minlen sec count) \<le> nat count"
    by (rule length_parse_items)
next
  assume "count < 0"
  then show "parse_items word stops minlen sec count = []"
    by (simp add: parse_items_neg)
qed

lemma parse_lengths:
  "parse_gemini_response text tc dc bc = (ts, ds, bs) \<Longrightarrow>
     length ts \<le> nat tc \<and> length ds \<le> nat dc \<and> length bs \<le> nat bc"
  by (auto simp: parse_gemini_response_def length_parse_items split: option.splits)

lemma parse_neg:
  "parse_gemini_response text tc dc bc = (ts, ds, bs) \<Longrightarrow>
     (tc < 0 \<longrightarrow> ts = []) \<and> (dc < 0 \<longrightarrow> ds = []) \<and> (bc < 0 \<longrightarrow> bs = [])"
  by (auto simp: parse_gemini_response_def parse_items_neg split: option.splits)

text \<open>The lists that \<open>generate_via_gemini\<close> returns are the lists it has when the \<open>try\<close> block is left.\<close>

lemma generate_lists_cases:
  "generate_lists srf req = ([], [], []) \<or>
   (\<exists>text ts ds bs. reply srf = Some text \<and> text \<noteq> [] \<and> snapshot srf \<and>
      parse_gemini_response text (title_count req) (desc_count req) (bullet_count req) = (ts, ds, bs) \<and>
      generate_lists srf req =
        (fill ''Generated Title '' ts (title_count req),
         fill ''Generated Description '' ds (desc_count req),
         fill ''Generated Bullet Point '' bs (bullet_count req)))"
  by (auto simp: generate_lists_def split: option.splits prod.splits)

lemma generate_lists_slice:
  "generate_lists srf req = (ts, ds, bs) \<Longrightarrow>
     slice_to ts (title_count req) = ts \<and> slice_to ds (desc_count req) = ds \<and>
     slice_to bs (bullet_count req) = bs"
  using generate_lists_cases [of srf req]
proof
  assume "generate_lists srf req = ([], [], [])" and "generate_lists srf req = (ts, ds, bs)"
  then show ?thesis by (simp add: slice_to_def)
next
  assume a: "generate_lists srf req = (ts, ds, bs)"
  assume "\<exists>text ts ds bs. reply srf = Some text \<and> text \<noteq> [] \<and> snapshot srf \<and>
      parse_gemini_response text (title_count req) (desc_count req) (bullet_count req) = (ts, ds, bs) \<and>
      generate_lists srf req =
        (fill ''Generated Title '' ts (title_count req),
         fill ''Generated Description '' ds (desc_count req),
         fill ''Generated Bullet Point '' bs (bullet_count req))"
  then obtain rt ts' ds' bs' where
    p: "parse_gemini_response rt (title_count req) (desc_count req) (bullet_count req) = (ts', ds', bs')"
    and g: "generate_lists srf req =
        (fill ''Generated Title '' ts' (title_count req),
         fill ''Generated Description '' ds' (desc_count req),
         fill ''Generated Bullet Point '' bs' (bullet_count req))"
    by blast
  from p have l: "length ts' \<le> nat (title_count req)" "length ds' \<le> nat (desc_count req)"
      "length bs' \<le> nat (bullet_count req)"
    using parse_lengths by blast+
  from p have n: "title_count req < 0 \<Longrightarrow> ts' = []" "desc_count req < 0 \<Longrightarrow> ds' = []"
      "bullet_count req < 0 \<Longrightarrow> bs' = []"
    using parse_neg by blast+
  from a g have e: "ts = fill ''Generated Title '' ts' (title_count req)"
      "ds = fill ''Generated Description '' ds' (desc_count req)"
      "bs = fill ''Generated Bullet Point '' bs' (bullet_count req)"
    by simp_all
  show ?thesis
    unfolding e using l n by (simp add: slice_to_fill)
qed

lemma generate_via_gemini_Inr:
  "generate_via_gemini srf req = Inr r \<Longrightarrow>
     launch srf = None \<and> close srf = None \<and> error r = None \<and>
     generate_lists srf req = (titles r, descriptions r, bullets r) \<and>
     success r = (titles r \<noteq> [] \<or> descriptions r \<noteq> [] \<or> bullets r \<noteq> [])"
proof -
  assume a: "generate_via_gemini srf req = Inr r"
  obtain ts ds bs where g: "generate_lists srf req = (ts, ds, bs)"
    by (cases "generate_lists srf req") auto
  note s = generate_lists_slice [OF g]
  from a g s show ?thesis
    by (auto simp: generate_via_gemini_def split: option.splits)
qed

lemma parse_empty: "parse_gemini_response [] tc dc bc = ([], [], [])"
  by (simp add: parse_gemini_response_def sections_def str_find_def str_upper_def)

lemma fill_nonempty: "length xs \<le> nat count \<Longrightarrow> (fill label xs count \<noteq> []) = (0 < count)"
proof -
  assume a: "length xs \<le> nat count"
  have "(fill label xs count \<noteq> []) = (0 < length (fill label xs count))" by simp
  also have "\<dots> = (0 < count)" using a by (simp add: length_fill max_def)
  finally show ?thesis .
qed

lemma generate_lists_complete:
  "reply srf = Some rt \<Longrightarrow> rt \<noteq> [] \<Longrightarrow> snapshot srf \<Longrightarrow>
   parse_gemini_response rt (title_count req) (desc_count req) (bullet_count req) = (ts, ds, bs) \<Longrightarrow>
   generate_lists srf req =
     (fill ''Generated Title '' ts (title_count req),
      fill ''Generated Description '' ds (desc_count req),
      fill ''Generated Bullet Point '' bs (bullet_count req))"
  by (simp add: generate_lists_def)

lemma generate_lists_interrupted:
  "reply srf = None \<or> reply srf = Some [] \<or> \<not> snapshot srf \<Longrightarrow> generate_lists srf req = ([], [], [])"
  by (auto simp: generate_lists_def split: option.splits)

text \<open>
  C1 (as amended). The success flag is true if and only if one of the three lists is non-empty
  when the envelope is built, that is after the placeholder padding: when the generation steps
  complete, success is true exactly when some requested count is positive, whatever the
  parser found. For an empty reply the orchestrator raises before it parses (the parser would
  return three empty lists): nothing is padded, the three returned lists are empty and
  success is false.
\<close>

theorem success_after_padding:
  assumes "generate_via_gemini srf req = Inr r"
  shows "(success r \<longleftrightarrow> titles r \<noteq> [] \<or> descriptions r \<noteq> [] \<or> bullets r \<noteq> []) \<and>
         (\<forall>rt. reply srf = Some rt \<and> rt \<noteq> [] \<and> snapshot srf \<longrightarrow>
            (success r \<longleftrightarrow> 0 < title_count req \<or> 0 < desc_count req \<or> 0 < bullet_count req)) \<and>
         (reply srf = Some [] \<longrightarrow>
            \<not> success r \<and> titles r = [] \<and> descriptions r = [] \<and> bullets r = []) \<and>
         parse_gemini_response [] tc dc bc = ([], [], [])"
proof -
  note g = generate_via_gemini_Inr [OF assms]
  have 1: "success r \<longleftrightarrow> titles r \<noteq> [] \<or> descriptions r \<noteq> [] \<or> bullets r \<noteq> []"
    using g by simp
  have 2: "success r \<longleftrightarrow> 0 < title_count req \<or> 0 < desc_count req \<or> 0 < bullet_count req"
    if a: "reply srf = Some rt \<and> rt \<noteq> [] \<and> snapshot srf" for rt
  proof -
    obtain ts ds bs where
      p: "parse_gemini_response rt (title_count req) (desc_count req) (bullet_count req) = (ts, ds, bs)"
      using prod_cases3 by blast
    note l = parse_lengths [OF p]
    have "generate_lists srf req =
       (fill ''Generated Title '' ts (title_count req),
        fill ''Generated Description '' ds (desc_count req),
        fill ''Generated Bullet Point '' bs (bullet_count req))"
      using a p by (simp add: generate_lists_complete)
    with g have "titles r = fill ''Generated Title '' ts (title_count req)"
      "descriptions r = fill ''Generated Description '' ds (desc_count req)"
      "bullets r = fill ''Generated Bullet Point '' bs (bullet_count req)"
      by simp_all
    with 1 l show ?thesis by (simp add: fill_nonempty)
  qed
  have 3: "\<not> success r \<and> titles r = [] \<and> descriptions r = [] \<and> bullets r = []"
    if "reply srf = Some []"
  proof -
    have "generate_lists srf req = ([], [], [])"
      using that by (simp add: generate_lists_interrupted)
    with g show ?thesis by simp
  qed
  from 1 2 3 parse_empty [of tc dc bc] show ?thesis by blast
qed

theorem success_after_padding_witness:
  "generate_via_gemini (replied ''hello'') (counts 1 1 1) =
     Inr \<lparr> success = True, error = None, titles = [''Generated Title 1''],
           descriptions = [''Generated Description 1''], bullets = [''Generated Bullet Point 1''] \<rparr> \<and>
   generate_via_gemini (replied []) (counts 1 1 1) =
     Inr \<lparr> success = False, error = None, titles = [], descriptions = [], bullets = [] \<rparr> \<and>
   parse_gemini_response [] 1 1 1 = ([], [], [])"
proof -
  have a: "generate_via_gemini (replied ''hello'') (counts 1 1 1) =
     Inr \<lparr> success = True, error = None, titles = [''Generated Title 1''],
           descriptions = [''Generated Description 1''], bullets = [''Generated Bullet Point 1''] \<rparr>"
    by code_simp
  have b: "generate_via_gemini (replied []) (counts 1 1 1) =
     Inr \<lparr> success = False, error = None, titles = [], descriptions = [], bullets = [] \<rparr>"
    by code_simp
  from success_after_padding [OF a, of 1 1 1] success_after_padding [OF b, of 1 1 1] a b
  show ?thesis by simp
qed

theorem success_before_padding_counterexample:
  "parse_gemini_response ''hello'' 1 1 1 = ([], [], []) \<and>
   generate_via_gemini (replied ''hello'') (counts 1 1 1) =
     Inr \<lparr> success = True, error = None, titles = [''Generated Title 1''],
           descriptions = [''Generated Description 1''], bullets = [''Generated Bullet Point 1''] \<rparr>"
  by code_simp

lemma slice_to_take: "0 \<le> count \<Longrightarrow> slice_to xs count = take (nat count) xs"
  by (simp add: slice_to_def)

lemma assemble_length: "0 \<le> count \<Longrightarrow> length (slice_to (fill label xs count) count) = nat count"
  by (simp add: slice_to_take length_fill)

lemma assemble_long: "0 \<le> count \<Longrightarrow> nat count \<le> length xs \<Longrightarrow>
    slice_to (fill label xs count) count = take (nat count) xs"
  by (simp add: slice_to_take fill_done)

lemma assemble_short: "length xs \<le> nat count \<Longrightarrow>
    slice_to (fill label xs count) count = xs @ map (\<lambda>k. label @ dec (Suc k)) [length xs ..< nat count]"
proof -
  assume a: "length xs \<le> nat count"
  have "slice_to (fill label xs count) count = take (nat count) (fill label xs count)"
    using a by (cases "count < 0") (simp_all add: slice_to_def fill_done)
  also have "\<dots> = fill label xs count"
    using a by (simp add: length_fill)
  finally show ?thesis by (simp add: fill_eq [symmetric])
qed

text \<open>
  C2 (as amended). When the generation steps complete, each returned list has as many items
  as were requested (none for a negative count); when an exception interrupts them (a step
  before the extraction raises, the reply is empty, or the snapshot cannot be written), the
  three returned lists are empty. The padding and truncation by themselves give a list of the
  requested length for every list and every count that is not negative: a list that is too
  long keeps its earliest items, a list that is too short is completed with placeholders
  numbered from its length plus one.
\<close>

theorem lengths_when_steps_complete:
  assumes "generate_via_gemini srf req = Inr r"
  shows "(\<forall>rt. reply srf = Some rt \<and> rt \<noteq> [] \<and> snapshot srf \<longrightarrow>
            int (length (titles r)) = max 0 (title_count req) \<and>
            int (length (descriptions r)) = max 0 (desc_count req) \<and>
            int (length (bullets r)) = max 0 (bullet_count req)) \<and>
         (reply srf = None \<or> reply srf = Some [] \<or> \<not> snapshot srf \<longrightarrow>
            titles r = [] \<and> descriptions r = [] \<and> bullets r = []) \<and>
         (\<forall>label xs count. 0 \<le> count \<longrightarrow>
            int (length (slice_to (fill label xs count) count)) = count \<and>
            (nat count \<le> length xs \<longrightarrow> slice_to (fill label xs count) count = take (nat count) xs) \<and>
            (length xs \<le> nat count \<longrightarrow>
               slice_to (fill label xs count) count =
                 xs @ map (\<lambda>k. label @ dec (Suc k)) [length xs ..< nat count]))"
proof -
  note g = generate_via_gemini_Inr [OF assms]
  have 1: "int (length (titles r)) = max 0 (title_count req) \<and>
           int (length (descriptions r)) = max 0 (desc_count req) \<and>
           int (length (bullets r)) = max 0 (bullet_count req)"
    if a: "reply srf = Some rt \<and> rt \<noteq> [] \<and> snapshot srf" for rt
  proof -
    obtain ts ds bs where
      p: "parse_gemini_response rt (title_count req) (desc_count req) (bullet_count req) = (ts, ds, bs)"
      using prod_cases3 by blast
    note l = parse_lengths [OF p]
    have "generate_lists srf req =
       (fill ''Generated Title '' ts (title_count req),
        fill ''Generated Description '' ds (desc_count req),
        fill ''Generated Bullet Point '' bs (bullet_count req))"
      using a p by (simp add: generate_lists_complete)
    with g have "titles r = fill ''Generated Title '' ts (title_count req)"
      "descriptions r = fill ''Generated Description '' ds (desc_count req)"
      "bullets r = fill ''Generated Bullet Point '' bs (bullet_count req)"
      by simp_all
    with l show ?thesis by (simp add: length_fill max_def)
  qed
  have 2: "titles r = [] \<and> descriptions r = [] \<and> bullets r = []"
    if "reply srf = None \<or> reply srf = Some [] \<or> \<not> snapshot srf"
  proof -
    have "generate_lists srf req = ([], [], [])"
      using that by (rule generate_lists_interrupted)
    with g show ?thesis by simp
  qed
  have 3: "int (length (slice_to (fill label xs count) count)) = count \<and>
            (nat count \<le> length xs \<longrightarrow> slice_to (fill label xs count) count = take (nat count) xs) \<and>
            (length xs \<le> nat count \<longrightarrow>
               slice_to (fill label xs count) count =
                 xs @ map (\<lambda>k. label @ dec (Suc k)) [length xs ..< nat count])"
    if "0 \<le> count" for label xs count
    using that by (simp add: assemble_length assemble_long assemble_short)
  from 1 2 3 show ?thesis by blast
qed

theorem lengths_when_steps_complete_witness:
  "generate_via_gemini (replied ''TITLES: Title 1: A short title text here'') (counts 2 1 0) =
     Inr \<lparr> success = True, error = None,
           titles = [''A short title text here'', ''Generated Title 2''],
           descriptions = [''Generated Description 1''], bullets = [] \<rparr> \<and>
   int (length [''A short title text here'', ''Generated Title 2'']) = max 0 2 \<and>
   slice_to (fill ''Generated Title '' [''a'', ''b'', ''c''] 2) 2 = [''a'', ''b''] \<and>
   slice_to (fill ''Generated Title '' [''a''] 2) 2 = [''a'', ''Generated Title 2''] \<and>
   generate_via_gemini (replied []) (counts 2 1 0) =
     Inr \<lparr> success = False, error = None, titles = [], descriptions = [], bullets = [] \<rparr>"
proof -
  have a: "generate_via_gemini (replied ''TITLES: Title 1: A short title text here'') (counts 2 1 0) =
     Inr \<lparr> success = True, error = None,
           titles = [''A short title text here'', ''Generated Title 2''],
           descriptions = [''Generated Description 1''], bullets = [] \<rparr>"
    by code_simp
  have b: "slice_to (fill ''Generated Title '' [''a'', ''b'', ''c''] 2) 2 = [''a'', ''b'']"
    by code_simp
  have c: "slice_to (fill ''Generated Title '' [''a''] 2) 2 = [''a'', ''Generated Title 2'']"
    by code_simp
  have d: "generate_via_gemini (replied []) (counts 2 1 0) =
     Inr \<lparr> success = False, error = None, titles = [], descriptions = [], bullets = [] \<rparr>"
    by code_simp
  from lengths_when_steps_complete [OF a] lengths_when_steps_complete [OF d] a b c d
  show ?thesis by simp
qed

theorem lengths_after_exception_counterexample:
  "generate_via_gemini interrupted (counts 5 5 8) =
     Inr \<lparr> success = False, error = None, titles = [], descriptions = [], bullets = [] \<rparr> \<and>
   int (length ([] :: string list)) \<noteq> title_count (counts 5 5 8)"
  by code_simp

text \<open>
  C3 (as amended). \<open>POST /generate\<close> answers 200 or 500. It answers 200 with the result
  exactly when the success flag is set, which is exactly when one of the three returned lists
  is non-empty. Otherwise it answers 500: with the plain result (success false, no \<open>error\<close>
  key) when \<open>generate_via_gemini\<close> returned, and with the \<open>error\<close> string and three empty
  lists only when \<open>generate_via_gemini\<close> itself raised.
\<close>

theorem generate_content_status:
  assumes "generate_content srf req = (status, body)"
  shows "(status = 200 \<or> status = 500) \<and>
         (status = 200 \<longleftrightarrow> success body) \<and>
         (success body \<longleftrightarrow> titles body \<noteq> [] \<or> descriptions body \<noteq> [] \<or> bullets body \<noteq> []) \<and>
         (\<forall>r. generate_via_gemini srf req = Inr r \<longrightarrow> body = r \<and> error body = None) \<and>
         (\<forall>e. generate_via_gemini srf req = Inl e \<longrightarrow>
            status = 500 \<and>
            body = \<lparr> success = False, error = Some e, titles = [], descriptions = [], bullets = [] \<rparr>)"
proof (cases "generate_via_gemini srf req")
  case (Inl e)
  with assms show ?thesis by (auto simp: generate_content_def)
next
  case (Inr r)
  note g = generate_via_gemini_Inr [OF Inr]
  from assms Inr have "body = r" "status = (if success r then 200 else 500)"
    by (auto simp: generate_content_def split: if_splits)
  with g Inr show ?thesis by simp
qed

theorem generate_content_status_witness:
  "generate_content (replied ''hello'') (counts 1 1 1) =
     (200, \<lparr> success = True, error = None, titles = [''Generated Title 1''],
             descriptions = [''Generated Description 1''], bullets = [''Generated Bullet Point 1''] \<rparr>) \<and>
   generate_content \<lparr> launch = Some ''no browser'', reply = None, snapshot = True, close = None \<rparr>
       (counts 1 1 1) =
     (500, \<lparr> success = False, error = Some ''no browser'', titles = [], descriptions = [], bullets = [] \<rparr>) \<and>
   success \<lparr> success = True, error = None, titles = [''Generated Title 1''],
             descriptions = [''Generated Description 1''], bullets = [''Generated Bullet Point 1''] \<rparr>"
proof -
  have a: "generate_content (replied ''hello'') (counts 1 1 1) =
     (200, \<lparr> success = True, error = None, titles = [''Generated Title 1''],
             descriptions = [''Generated Description 1''], bullets = [''Generated Bullet Point 1''] \<rparr>)"
    by code_simp
  have b: "generate_content \<lparr> launch = Some ''no browser'', reply = None, snapshot = True, close = None \<rparr>
       (counts 1 1 1) =
     (500, \<lparr> success = False, error = Some ''no browser'', titles = [], descriptions = [], bullets = [] \<rparr>)"
    by code_simp
  from generate_content_status [OF a] generate_content_status [OF b] a b show ?thesis by simp
qed

theorem generate_content_no_error_counterexample:
  "generate_content interrupted (counts 1 1 1) =
     (500, \<lparr> success = False, error = None, titles = [], descriptions = [], bullets = [] \<rparr>)"
  by code_simp

text \<open>
  C9. For every text and all counts, the parser returns at most as many items for a section as
  were requested for it (none for a count below one), so padding such a list to the requested
  count and cutting it there again changes nothing: the parsed items are the first items of
  the assembled list.
\<close>

theorem parser_within_counts:
  assumes "parse_gemini_response rt tc dc bc = (ts, ds, bs)"
  shows "int (length ts) \<le> max 0 tc \<and> int (length ds) \<le> max 0 dc \<and> int (length bs) \<le> max 0 bc \<and>
         slice_to (fill ''Generated Title '' ts tc) tc = fill ''Generated Title '' ts tc \<and>
         slice_to (fill ''Generated Description '' ds dc) dc = fill ''Generated Description '' ds dc \<and>
         slice_to (fill ''Generated Bullet Point '' bs bc) bc = fill ''Generated Bullet Point '' bs bc \<and>
         prefix ts (slice_to (fill ''Generated Title '' ts tc) tc) \<and>
         prefix ds (slice_to (fill ''Generated Description '' ds dc) dc) \<and>
         prefix bs (slice_to (fill ''Generated Bullet Point '' bs bc) bc)"
proof -
  note l = parse_lengths [OF assms]
  from parse_neg [OF assms]
  have n: "tc < 0 \<Longrightarrow> ts = []" "dc < 0 \<Longrightarrow> ds = []" "bc < 0 \<Longrightarrow> bs = []"
    by simp_all
  have s: "slice_to (fill ''Generated Title '' ts tc) tc = fill ''Generated Title '' ts tc"
    "slice_to (fill ''Generated Description '' ds dc) dc = fill ''Generated Description '' ds dc"
    "slice_to (fill ''Generated Bullet Point '' bs bc) bc = fill ''Generated Bullet Point '' bs bc"
    using l n by (simp_all add: slice_to_fill)
  have b: "int (length ts) \<le> max 0 tc" "int (length ds) \<le> max 0 dc" "int (length bs) \<le> max 0 bc"
    using l by linarith+
  show ?thesis unfolding s using b by (simp add: prefix_fill)
qed

theorem parser_within_counts_witness:
  "parse_gemini_response ''titles: title1:abcdefghijk TITLE 2 :   abc   defghi  jk  title 3: abcdefghij''
     2 1 (- 1) = ([''abcdefghijk'', ''abc defghi jk''], [], []) \<and>
   int (length [''abcdefghijk'', ''abc defghi jk'']) \<le> max 0 2 \<and>
   slice_to (fill ''Generated Bullet Point '' [] (- 1)) (- 1) = []"
proof -
  have a: "parse_gemini_response ''titles: title1:abcdefghijk TITLE 2 :   abc   defghi  jk  title 3: abcdefghij''
     2 1 (- 1) = ([''abcdefghijk'', ''abc defghi jk''], [], [])"
    by code_simp
  from parser_within_counts [OF a] a show ?thesis by (simp add: fill_done)
qed

section \<open>The parser: sections, markers and the length filter\<close>

lemma find_from_None: "find_from sub s i = None \<longleftrightarrow> \<not> sublist sub s"
  by (induction s arbitrary: i) (auto simp: sublist_Cons_right)

lemma str_find_None: "str_find s sub = None \<longleftrightarrow> \<not> sublist sub s"
  by (simp add: str_find_def find_from_None)

lemma match_lits_Nil: "w \<noteq> [] \<Longrightarrow> match_atoms (lits w @ r) k [] = None"
  by (cases w) (simp_all add: lits_def)

lemma match_at_Nil: "word \<noteq> [] \<Longrightarrow> match_at (item_pattern word i stops) [] = None"
  by (simp add: match_at_def item_pattern_def match_lits_Nil)

lemma foldl_item_step_Nil:
  "word \<noteq> [] \<Longrightarrow> foldl (item_step word stops minlen []) acc is = acc"
  by (induction "is" arbitrary: acc) (simp_all add: item_step_def match_at_Nil)

lemma parse_items_Nil: "word \<noteq> [] \<Longrightarrow> parse_items word stops minlen [] count = []"
  by (simp add: parse_items_def foldl_item_step_Nil)

lemma item_step_long:
  "(\<forall>x\<in>set acc. minlen < length x) \<Longrightarrow>
   (\<forall>x\<in>set (item_step word stops minlen sec acc i). minlen < length x)"
  by (auto simp: item_step_def Let_def split: option.splits)

lemma foldl_item_step_long:
  "(\<forall>x\<in>set acc. minlen < length x) \<Longrightarrow>
   (\<forall>x\<in>set (foldl (item_step word stops minlen sec) acc is). minlen < length x)"
proof (induction "is" arbitrary: acc)
  case Nil
  then show ?case by simp
next
  case (Cons i "is")
  from Cons.prems have "\<forall>x\<in>set (item_step word stops minlen sec acc i). minlen < length x"
    by (rule item_step_long)
  then show ?case using Cons.IH by simp
qed

lemma parse_items_long: "x \<in> set (parse_items word stops minlen sec count) \<Longrightarrow> minlen < length x"
  using foldl_item_step_long [of "[]" minlen word stops sec "[1..count]"]
  by (simp add: parse_items_def)

text \<open>
  C6. An item whose normalised content has exactly 10 characters (titles, bullets) or exactly
  20 (descriptions) is not appended; one of 11, or of 21, is appended. Every item of the parsed
  lists is therefore longer than 10, 20 and 10 characters.
\<close>

theorem minimum_length_boundary:
  "(re_search (item_pattern ''Title'' i [''DESCRIPTIONS:'']) sec = Some g \<longrightarrow>
      (length (normalize g) = 10 \<longrightarrow> item_step ''Title'' [''DESCRIPTIONS:''] 10 sec acc i = acc) \<and>
      (length (normalize g) = 11 \<longrightarrow>
         item_step ''Title'' [''DESCRIPTIONS:''] 10 sec acc i = acc @ [normalize g])) \<and>
   (re_search (item_pattern ''Description'' j [''BULLETS:'']) sec' = Some g' \<longrightarrow>
      (length (normalize g') = 20 \<longrightarrow> item_step ''Description'' [''BULLETS:''] 20 sec' acc' j = acc') \<and>
      (length (normalize g') = 21 \<longrightarrow>
         item_step ''Description'' [''BULLETS:''] 20 sec' acc' j = acc' @ [normalize g'])) \<and>
   (re_search (item_pattern ''Bullet'' k []) sec'' = Some g'' \<longrightarrow>
      (length (normalize g'') = 10 \<longrightarrow> item_step ''Bullet'' [] 10 sec'' acc'' k = acc'') \<and>
      (length (normalize g'') = 11 \<longrightarrow>
         item_step ''Bullet'' [] 10 sec'' acc'' k = acc'' @ [normalize g''])) \<and>
   (parse_gemini_response rt tc dc bc = (ts, ds, bs) \<longrightarrow>
      (\<forall>x\<in>set ts. 10 < length x) \<and> (\<forall>x\<in>set ds. 20 < length x) \<and> (\<forall>x\<in>set bs. 10 < length x))"
proof -
  have "(\<forall>x\<in>set ts. 10 < length x) \<and> (\<forall>x\<in>set ds. 20 < length x) \<and> (\<forall>x\<in>set bs. 10 < length x)"
    if "parse_gemini_response rt tc dc bc = (ts, ds, bs)"
    using that
    by (auto simp: parse_gemini_response_def split: option.splits dest: parse_items_long)
  then show ?thesis
    by (simp add: item_step_def)
qed

theorem minimum_length_boundary_witness:
  "parse_gemini_response
     ''TITLES: Title 1: abcdefghij Title 2: abcde fghij DESCRIPTIONS: Description 1: abcdefghijklmnopqrst Description 2: abcdefghijklmnopqrstu BULLETS: Bullet 1: 0123456789 Bullet 2: 0123456789a''
     2 2 2 = ([''abcde fghij''], [''abcdefghijklmnopqrstu''], [''0123456789a'']) \<and>
   item_step ''Title'' [''DESCRIPTIONS:''] 10 ''Title 1: abcdefghij'' [] 1 = [] \<and>
   item_step ''Title'' [''DESCRIPTIONS:''] 10 ''Title 1: abcde   fghij'' [] 1 = [''abcde fghij''] \<and>
   item_step ''Description'' [''BULLETS:''] 20 ''Description 1: abcdefghijklmnopqrst'' [] 1 = [] \<and>
   item_step ''Description'' [''BULLETS:''] 20 ''Description 1: abcdefghijklmnopqrstu'' [] 1 =
     [''abcdefghijklmnopqrstu''] \<and>
   item_step ''Bullet'' [] 10 ''Bullet 1: 0123456789'' [] 1 = [] \<and>
   item_step ''Bullet'' [] 10 ''Bullet 1: 0123456789a'' [] 1 = [''0123456789a'']"
proof -
  have p: "parse_gemini_response
     ''TITLES: Title 1: abcdefghij Title 2: abcde fghij DESCRIPTIONS: Description 1: abcdefghijklmnopqrst Description 2: abcdefghijklmnopqrstu BULLETS: Bullet 1: 0123456789 Bullet 2: 0123456789a''
     2 2 2 = ([''abcde fghij''], [''abcdefghijklmnopqrstu''], [''0123456789a''])"
    by code_simp
  have t10: "re_search (item_pattern ''Title'' 1 [''DESCRIPTIONS:'']) ''Title 1: abcdefghij'' = Some ''abcdefghij''"
    and n10: "length (normalize ''abcdefghij'') = 10"
    by code_simp+
  have t11: "re_search (item_pattern ''Title'' 1 [''DESCRIPTIONS:'']) ''Title 1: abcde   fghij'' = Some ''abcde   fghij''"
    and n11: "length (normalize ''abcde   fghij'') = 11" and e11: "normalize ''abcde   fghij'' = ''abcde fghij''"
    by code_simp+
  have d20: "re_search (item_pattern ''Description'' 1 [''BULLETS:'']) ''Description 1: abcdefghijklmnopqrst'' = Some ''abcdefghijklmnopqrst''"
    and m20: "length (normalize ''abcdefghijklmnopqrst'') = 20"
    by code_simp+
  have d21: "re_search (item_pattern ''Description'' 1 [''BULLETS:'']) ''Description 1: abcdefghijklmnopqrstu'' = Some ''abcdefghijklmnopqrstu''"
    and m21: "length (normalize ''abcdefghijklmnopqrstu'') = 21" and f21: "normalize ''abcdefghijklmnopqrstu'' = ''abcdefghijklmnopqrstu''"
    by code_simp+
  have b10: "re_search (item_pattern ''Bullet'' 1 []) ''Bullet 1: 0123456789'' = Some ''0123456789''"
    and o10: "length (normalize ''0123456789'') = 10"
    by code_simp+
  have b11: "re_search (item_pattern ''Bullet'' 1 []) ''Bullet 1: 0123456789a'' = Some ''0123456789a''"
    and o11: "length (normalize ''0123456789a'') = 11" and g11: "normalize ''0123456789a'' = ''0123456789a''"
    by code_simp+
  have 1: "item_step ''Title'' [''DESCRIPTIONS:''] 10 ''Title 1: abcdefghij'' [] 1 = []"
    using minimum_length_boundary [of 1 "''Title 1: abcdefghij''" "''abcdefghij''" "[]"] t10 n10
    by blast
  have 2: "item_step ''Title'' [''DESCRIPTIONS:''] 10 ''Title 1: abcde   fghij'' [] 1 = [] @ [normalize ''abcde   fghij'']"
    using minimum_length_boundary [of 1 "''Title 1: abcde   fghij''" "''abcde   fghij''" "[]"] t11 n11
    by blast
  have 3: "item_step ''Description'' [''BULLETS:''] 20 ''Description 1: abcdefghijklmnopqrst'' [] 1 = []"
    using minimum_length_boundary [of _ _ _ _ 1 "''Description 1: abcdefghijklmnopqrst''" "''abcdefghijklmnopqrst''" "[]"] d20 m20
    by blast
  have 4: "item_step ''Description'' [''BULLETS:''] 20 ''Description 1: abcdefghijklmnopqrstu'' [] 1 =
      [] @ [normalize ''abcdefghijklmnopqrstu'']"
    using minimum_length_boundary [of _ _ _ _ 1 "''Description 1: abcdefghijklmnopqrstu''" "''abcdefghijklmnopqrstu''" "[]"] d21 m21
    by blast
  have 5: "item_step ''Bullet'' [] 10 ''Bullet 1: 0123456789'' [] 1 = []"
    using minimum_length_boundary [of _ _ _ _ _ _ _ _ 1 "''Bullet 1: 0123456789''" "''0123456789''" "[]"] b10 o10
    by blast
  have 6: "item_step ''Bullet'' [] 10 ''Bullet 1: 0123456789a'' [] 1 = [] @ [normalize ''0123456789a'']"
    using minimum_length_boundary [of _ _ _ _ _ _ _ _ 1 "''Bullet 1: 0123456789a''" "''0123456789a''" "[]"] b11 o11
    by blast
  show ?thesis
    using p 1 2 3 4 5 6 by (simp only: e11 f21 g11 append_Nil simp_thms)
qed

text \<open>
  C8. A text in which \<open>TITLES:\<close> does not occur, in any case of the letters, parses to three
  empty lists, whether or not the other two markers are there.
\<close>

theorem no_titles_marker_no_items:
  assumes "\<not> sublist ''TITLES:'' (str_upper rt)"
  shows "parse_gemini_response rt tc dc bc = ([], [], [])"
proof -
  from assms have "str_find (str_upper rt) ''TITLES:'' = None"
    by (simp add: str_find_None)
  then have "sections rt = None"
    by (simp add: sections_def)
  then show ?thesis
    by (simp add: parse_gemini_response_def)
qed

theorem no_titles_marker_no_items_witness:
  "\<not> sublist ''TITLES:''
       (str_upper ''Descriptions:\<newline>Description 1: A sturdy mouse for every day\<newline>Bullets:\<newline>Bullet 1: Long battery life'') \<and>
   parse_gemini_response
     ''Descriptions:\<newline>Description 1: A sturdy mouse for every day\<newline>Bullets:\<newline>Bullet 1: Long battery life''
     1 1 1 = ([], [], [])"
proof -
  have "str_find (str_upper ''Descriptions:\<newline>Description 1: A sturdy mouse for every day\<newline>Bullets:\<newline>Bullet 1: Long battery life'')
          ''TITLES:'' = None"
    by code_simp
  then have a: "\<not> sublist ''TITLES:''
       (str_upper ''Descriptions:\<newline>Description 1: A sturdy mouse for every day\<newline>Bullets:\<newline>Bullet 1: Long battery life'')"
    unfolding str_find_None .
  from a no_titles_marker_no_items [OF a, of 1 1 1] show ?thesis by (rule conjI)
qed

text \<open>
  C7 (as amended). With \<open>TITLES:\<close> found, each of the other two sections depends on its own
  marker only. Without \<open>DESCRIPTIONS:\<close> the descriptions section is empty and the titles
  section runs to the end of the text; without \<open>BULLETS:\<close> the bullets section is empty. For a
  text with \<open>TITLES:\<close> and \<open>BULLETS:\<close> but no \<open>DESCRIPTIONS:\<close>, the bullets section is the
  text after \<open>BULLETS:\<close>, and titles and bullets are parsed from their sections.
\<close>

theorem sections_by_own_marker:
  assumes "str_find (str_upper rt) ''TITLES:'' = Some t"
  shows "(str_find (str_upper rt) ''DESCRIPTIONS:'' = None \<longrightarrow>
            sections rt =
              Some (slice_from rt (t + 7), [],
                    (case str_find (str_upper rt) ''BULLETS:'' of
                       Some b \<Rightarrow> slice_from rt (b + 8)
                     | None \<Rightarrow> []))) \<and>
         (str_find (str_upper rt) ''BULLETS:'' = None \<longrightarrow>
            sections rt =
              Some ((case str_find (str_upper rt) ''DESCRIPTIONS:'' of
                       Some d \<Rightarrow> slice rt (t + 7) d
                     | None \<Rightarrow> slice_from rt (t + 7)),
                    (case str_find (str_upper rt) ''DESCRIPTIONS:'' of
                       Some d \<Rightarrow> slice_from rt (d + 13)
                     | None \<Rightarrow> []),
                    [])) \<and>
         (\<forall>b. str_find (str_upper rt) ''DESCRIPTIONS:'' = None \<and>
              str_find (str_upper rt) ''BULLETS:'' = Some b \<longrightarrow>
              parse_gemini_response rt tc dc bc =
                (parse_items ''Title'' [''DESCRIPTIONS:''] 10 (slice_from rt (t + 7)) tc,
                 [],
                 parse_items ''Bullet'' [] 10 (slice_from rt (b + 8)) bc))"
  using assms
  by (auto simp: parse_gemini_response_def sections_def parse_items_Nil split: option.splits)

theorem sections_by_own_marker_witness:
  "str_find (str_upper ''TITLES:\<newline>Title 1: Great Wireless Mouse\<newline>BULLETS:\<newline>Bullet 1: Long battery life'')
     ''TITLES:'' = Some 0 \<and>
   str_find (str_upper ''TITLES:\<newline>Title 1: Great Wireless Mouse\<newline>BULLETS:\<newline>Bullet 1: Long battery life'')
     ''DESCRIPTIONS:'' = None \<and>
   sections ''TITLES:\<newline>Title 1: Great Wireless Mouse\<newline>BULLETS:\<newline>Bullet 1: Long battery life'' =
     Some (''\<newline>Title 1: Great Wireless Mouse\<newline>BULLETS:\<newline>Bullet 1: Long battery life'', [],
           ''\<newline>Bullet 1: Long battery life'') \<and>
   parse_gemini_response
     ''TITLES:\<newline>Title 1: Great Wireless Mouse\<newline>BULLETS:\<newline>Bullet 1: Long battery life'' 1 1 1 =
     ([''Great Wireless Mouse BULLETS: Bullet 1: Long battery life''], [], [''Long battery life'']) \<and>
   sections ''TITLES:\<newline>Title 1: Great Wireless Mouse'' =
     Some (''\<newline>Title 1: Great Wireless Mouse'', [], [])"
proof -
  let ?rt = "''TITLES:\<newline>Title 1: Great Wireless Mouse\<newline>BULLETS:\<newline>Bullet 1: Long battery life''"
  let ?st = "''TITLES:\<newline>Title 1: Great Wireless Mouse''"
  have a: "str_find (str_upper ?rt) ''TITLES:'' = Some 0"
    by code_simp
  have b: "str_find (str_upper ?rt) ''DESCRIPTIONS:'' = None"
    by code_simp
  have c: "str_find (str_upper ?rt) ''BULLETS:'' = Some 38"
    by code_simp
  have a': "str_find (str_upper ?st) ''TITLES:'' = Some 0"
    by code_simp
  have b': "str_find (str_upper ?st) ''DESCRIPTIONS:'' = None"
    by code_simp
  have c': "str_find (str_upper ?st) ''BULLETS:'' = None"
    by code_simp
  have t: "parse_items ''Title'' [''DESCRIPTIONS:''] 10
      ''\<newline>Title 1: Great Wireless Mouse\<newline>BULLETS:\<newline>Bullet 1: Long battery life'' 1 =
      [''Great Wireless Mouse BULLETS: Bullet 1: Long battery life'']"
    by code_simp
  have u: "parse_items ''Bullet'' [] 10 ''\<newline>Bullet 1: Long battery life'' 1 = [''Long battery life'']"
    by code_simp
  from sections_by_own_marker [OF a] b
  have "sections ?rt =
      Some (slice_from ?rt (0 + 7), [],
            (case str_find (str_upper ?rt) ''BULLETS:'' of
               Some b \<Rightarrow> slice_from ?rt (b + 8)
             | None \<Rightarrow> []))"
    by blast
  then have 1: "sections ?rt =
     Some (''\<newline>Title 1: Great Wireless Mouse\<newline>BULLETS:\<newline>Bullet 1: Long battery life'', [],
           ''\<newline>Bullet 1: Long battery life'')"
    by (simp add: c slice_from_def)
  from sections_by_own_marker [OF a, of 1 1 1] b c
  have "parse_gemini_response ?rt 1 1 1 =
      (parse_items ''Title'' [''DESCRIPTIONS:''] 10 (slice_from ?rt (0 + 7)) 1, [],
       parse_items ''Bullet'' [] 10 (slice_from ?rt (38 + 8)) 1)"
    by blast
  then have 2: "parse_gemini_response ?rt 1 1 1 =
     ([''Great Wireless Mouse BULLETS: Bullet 1: Long battery life''], [], [''Long battery life''])"
    by (simp add: slice_from_def t u)
  from sections_by_own_marker [OF a'] c'
  have "sections ?st =
      Some ((case str_find (str_upper ?st) ''DESCRIPTIONS:'' of
               Some d \<Rightarrow> slice ?st (0 + 7) d
             | None \<Rightarrow> slice_from ?st (0 + 7)),
            (case str_find (str_upper ?st) ''DESCRIPTIONS:'' of
               Some d \<Rightarrow> slice_from ?st (d + 13)
             | None \<Rightarrow> []),
            [])"
    by blast
  then have 3: "sections ?st = Some (''\<newline>Title 1: Great Wireless Mouse'', [], [])"
    by (simp add: b' slice_from_def)
  from a b 1 2 3 show ?thesis by simp
qed

theorem bullets_without_descriptions_counterexample:
  "str_find (str_upper ''TITLES:\<newline>Title 1: Great Wireless Mouse\<newline>BULLETS:\<newline>Bullet 1: Long battery life'')
     ''DESCRIPTIONS:'' = None \<and>
   sections ''TITLES:\<newline>Title 1: Great Wireless Mouse\<newline>BULLETS:\<newline>Bullet 1: Long battery life'' =
     Some (''\<newline>Title 1: Great Wireless Mouse\<newline>BULLETS:\<newline>Bullet 1: Long battery life'', [],
           ''\<newline>Bullet 1: Long battery life'') \<and>
   parse_gemini_response
     ''TITLES:\<newline>Title 1: Great Wireless Mouse\<newline>BULLETS:\<newline>Bullet 1: Long battery life'' 1 1 1 =
     ([''Great Wireless Mouse BULLETS: Bullet 1: Long battery life''], [], [''Long battery life''])"
  by code_simp

text \<open>\<open>find\<close> returns the index of the first occurrence.\<close>

lemma first_at_Nil: "first_at m [] d \<longleftrightarrow> d = 0 \<and> m = []"
  by (auto simp: first_at_def)

lemma first_at_Cons_0: "first_at m (x # s) 0 \<longleftrightarrow> prefix m (x # s)"
  by (simp add: first_at_def)

lemma first_at_Cons_Suc:
  "first_at m (x # s) (Suc k) \<longleftrightarrow> \<not> prefix m (x # s) \<and> first_at m s k"
proof -
  have "(\<forall>i\<in>{..<Suc k}. \<not> prefix m (drop i (x # s))) \<longleftrightarrow>
      \<not> prefix m (x # s) \<and> (\<forall>i\<in>{..<k}. \<not> prefix m (drop i s))"
  proof
    assume a: "\<forall>i\<in>{..<Suc k}. \<not> prefix m (drop i (x # s))"
    have "\<not> prefix m (drop 0 (x # s))" using a by blast
    moreover have "\<not> prefix m (drop i s)" if "i \<in> {..<k}" for i
    proof -
      from that have "Suc i \<in> {..<Suc k}" by simp
      with a have "\<not> prefix m (drop (Suc i) (x # s))" by blast
      then show ?thesis by simp
    qed
    ultimately show "\<not> prefix m (x # s) \<and> (\<forall>i\<in>{..<k}. \<not> prefix m (drop i s))" by simp
  next
    assume a: "\<not> prefix m (x # s) \<and> (\<forall>i\<in>{..<k}. \<not> prefix m (drop i s))"
    show "\<forall>i\<in>{..<Suc k}. \<not> prefix m (drop i (x # s))"
    proof
      fix i assume "i \<in> {..<Suc k}"
      then show "\<not> prefix m (drop i (x # s))"
        using a by (cases i) simp_all
    qed
  qed
  then show ?thesis
    unfolding first_at_def by auto
qed

lemma find_from_first: "find_from m s i = Some d \<longleftrightarrow> i \<le> d \<and> first_at m s (d - i)"
proof (induction s arbitrary: i)
  case Nil
  show ?case by (auto simp: first_at_Nil)
next
  case (Cons x s)
  show ?case
  proof (cases "prefix m (x # s)")
    case True
    have "first_at m (x # s) (d - i) \<longleftrightarrow> d - i = 0"
      using True by (cases "d - i") (simp_all add: first_at_Cons_0 first_at_Cons_Suc)
    with True show ?thesis by auto
  next
    case False
    have "first_at m (x # s) (d - i) \<longleftrightarrow> i < d \<and> first_at m s (d - Suc i)"
    proof (cases "d - i")
      case 0
      with False show ?thesis by (simp add: first_at_Cons_0)
    next
      case (Suc k)
      then have "i < d" "d - Suc i = k" by simp_all
      with False Suc show ?thesis by (simp add: first_at_Cons_Suc)
    qed
    with False Cons.IH [of "Suc i"] show ?thesis by auto
  qed
qed

lemma str_find_first: "str_find s m = Some d \<longleftrightarrow> first_at m s d"
  by (simp add: str_find_def find_from_first)

text \<open>
  C10. The sections are cut at the first occurrence of each marker in the upper-cased text, in
  whatever order the markers stand. When the first \<open>DESCRIPTIONS:\<close> stands before the first
  \<open>TITLES:\<close>, the titles section is empty and no title is parsed. The descriptions section is
  what follows the first \<open>DESCRIPTIONS:\<close>, up to the first \<open>BULLETS:\<close> (to the end of the
  text without one), and the bullets section is what follows the first \<open>BULLETS:\<close>;
  descriptions and bullets are the items that the loops find in these two slices.
\<close>

theorem descriptions_before_titles:
  assumes "first_at ''DESCRIPTIONS:'' (str_upper rt) d"
    and "first_at ''TITLES:'' (str_upper rt) t"
    and "d < t"
  shows "(\<not> sublist ''BULLETS:'' (str_upper rt) \<longrightarrow>
            sections rt = Some ([], drop (d + 13) rt, []) \<and>
            parse_gemini_response rt tc dc bc =
              ([], parse_items ''Description'' [''BULLETS:''] 20 (drop (d + 13) rt) dc, [])) \<and>
         (\<forall>b. first_at ''BULLETS:'' (str_upper rt) b \<longrightarrow>
            sections rt = Some ([], take (b - (d + 13)) (drop (d + 13) rt), drop (b + 8) rt) \<and>
            parse_gemini_response rt tc dc bc =
              ([], parse_items ''Description'' [''BULLETS:''] 20 (take (b - (d + 13)) (drop (d + 13) rt)) dc,
               parse_items ''Bullet'' [] 10 (drop (b + 8) rt) bc))"
proof -
  from assms(1,2) have f: "str_find (str_upper rt) ''DESCRIPTIONS:'' = Some d"
    "str_find (str_upper rt) ''TITLES:'' = Some t"
    by (simp_all add: str_find_first)
  from assms(3) have e: "slice rt (t + 7) d = []"
    by (simp add: slice_def)
  have 1: "sections rt = Some ([], drop (d + 13) rt, [])"
    if "\<not> sublist ''BULLETS:'' (str_upper rt)"
  proof -
    from that have "str_find (str_upper rt) ''BULLETS:'' = None"
      by (simp add: str_find_None)
    with f e show ?thesis
      by (simp add: sections_def slice_from_def)
  qed
  have 2: "sections rt = Some ([], take (b - (d + 13)) (drop (d + 13) rt), drop (b + 8) rt)"
    if "first_at ''BULLETS:'' (str_upper rt) b" for b
  proof -
    from that have "str_find (str_upper rt) ''BULLETS:'' = Some b"
      by (simp add: str_find_first)
    with f e show ?thesis
      by (simp add: sections_def slice_from_def slice_def)
  qed
  show ?thesis
    using 1 2 by (simp add: parse_gemini_response_def parse_items_Nil)
qed


theorem descriptions_before_titles_witness:
  "first_at ''DESCRIPTIONS:'' (str_upper ''Descriptions:\<newline>Description 1: A sturdy mouse for every day\<newline>Bullet 1: not in the bullets section\<newline>Titles:\<newline>Title 1: Great Wireless Mouse\<newline>bullets:\<newline>Bullet 1: Long battery life\<newline>DESCRIPTIONS:\<newline>TITLES:'') 0 \<and>
   first_at ''TITLES:'' (str_upper ''Descriptions:\<newline>Description 1: A sturdy mouse for every day\<newline>Bullet 1: not in the bullets section\<newline>Titles:\<newline>Title 1: Great Wireless Mouse\<newline>bullets:\<newline>Bullet 1: Long battery life\<newline>DESCRIPTIONS:\<newline>TITLES:'') 95 \<and>
   first_at ''BULLETS:'' (str_upper ''Descriptions:\<newline>Description 1: A sturdy mouse for every day\<newline>Bullet 1: not in the bullets section\<newline>Titles:\<newline>Title 1: Great Wireless Mouse\<newline>bullets:\<newline>Bullet 1: Long battery life\<newline>DESCRIPTIONS:\<newline>TITLES:'') 133 \<and>
   sections ''Descriptions:\<newline>Description 1: A sturdy mouse for every day\<newline>Bullet 1: not in the bullets section\<newline>Titles:\<newline>Title 1: Great Wireless Mouse\<newline>bullets:\<newline>Bullet 1: Long battery life\<newline>DESCRIPTIONS:\<newline>TITLES:'' =
     Some ([], ''\<newline>Description 1: A sturdy mouse for every day\<newline>Bullet 1: not in the bullets section\<newline>Titles:\<newline>Title 1: Great Wireless Mouse\<newline>'',
           ''\<newline>Bullet 1: Long battery life\<newline>DESCRIPTIONS:\<newline>TITLES:'') \<and>
   parse_gemini_response ''Descriptions:\<newline>Description 1: A sturdy mouse for every day\<newline>Bullet 1: not in the bullets section\<newline>Titles:\<newline>Title 1: Great Wireless Mouse\<newline>bullets:\<newline>Bullet 1: Long battery life\<newline>DESCRIPTIONS:\<newline>TITLES:'' 1 1 1 =
     ([], [''A sturdy mouse for every day Bullet 1: not in the bullets section Titles: Title 1: Great Wireless Mouse''],
      [''Long battery life DESCRIPTIONS: TITLES:'']) \<and>
   first_at ''DESCRIPTIONS:'' (str_upper ''descriptions:\<newline>Description 1: A sturdy mouse for every day\<newline>titles:\<newline>Title 1: Great Wireless Mouse'') 0 \<and>
   first_at ''TITLES:'' (str_upper ''descriptions:\<newline>Description 1: A sturdy mouse for every day\<newline>titles:\<newline>Title 1: Great Wireless Mouse'') 58 \<and>
   \<not> sublist ''BULLETS:'' (str_upper ''descriptions:\<newline>Description 1: A sturdy mouse for every day\<newline>titles:\<newline>Title 1: Great Wireless Mouse'') \<and>
   sections ''descriptions:\<newline>Description 1: A sturdy mouse for every day\<newline>titles:\<newline>Title 1: Great Wireless Mouse'' =
     Some ([], ''\<newline>Description 1: A sturdy mouse for every day\<newline>titles:\<newline>Title 1: Great Wireless Mouse'', []) \<and>
   parse_gemini_response ''descriptions:\<newline>Description 1: A sturdy mouse for every day\<newline>titles:\<newline>Title 1: Great Wireless Mouse'' 1 1 1 =
     ([], [''A sturdy mouse for every day titles: Title 1: Great Wireless Mouse''], [])"
proof -
  let ?rt = "''Descriptions:\<newline>Description 1: A sturdy mouse for every day\<newline>Bullet 1: not in the bullets section\<newline>Titles:\<newline>Title 1: Great Wireless Mouse\<newline>bullets:\<newline>Bullet 1: Long battery life\<newline>DESCRIPTIONS:\<newline>TITLES:''"
  let ?st = "''descriptions:\<newline>Description 1: A sturdy mouse for every day\<newline>titles:\<newline>Title 1: Great Wireless Mouse''"
  have d: "first_at ''DESCRIPTIONS:'' (str_upper ?rt) 0"
    and t: "first_at ''TITLES:'' (str_upper ?rt) 95"
    and b: "first_at ''BULLETS:'' (str_upper ?rt) 133"
    by code_simp+
  have d': "first_at ''DESCRIPTIONS:'' (str_upper ?st) 0"
    and t': "first_at ''TITLES:'' (str_upper ?st) 58"
    by code_simp+
  have "str_find (str_upper ?st) ''BULLETS:'' = None"
    by code_simp
  then have n: "\<not> sublist ''BULLETS:'' (str_upper ?st)"
    unfolding str_find_None .
  have c1: "take (133 - (0 + 13)) (drop (0 + 13) ?rt) = ''\<newline>Description 1: A sturdy mouse for every day\<newline>Bullet 1: not in the bullets section\<newline>Titles:\<newline>Title 1: Great Wireless Mouse\<newline>''"
    and c2: "drop (133 + 8) ?rt = ''\<newline>Bullet 1: Long battery life\<newline>DESCRIPTIONS:\<newline>TITLES:''"
    and c3: "drop (0 + 13) ?st = ''\<newline>Description 1: A sturdy mouse for every day\<newline>titles:\<newline>Title 1: Great Wireless Mouse''"
    by simp_all
  have p1: "parse_items ''Description'' [''BULLETS:''] 20 ''\<newline>Description 1: A sturdy mouse for every day\<newline>Bullet 1: not in the bullets section\<newline>Titles:\<newline>Title 1: Great Wireless Mouse\<newline>'' 1 =
      [''A sturdy mouse for every day Bullet 1: not in the bullets section Titles: Title 1: Great Wireless Mouse'']"
    and p2: "parse_items ''Bullet'' [] 10 ''\<newline>Bullet 1: Long battery life\<newline>DESCRIPTIONS:\<newline>TITLES:'' 1 = [''Long battery life DESCRIPTIONS: TITLES:'']"
    and p3: "parse_items ''Description'' [''BULLETS:''] 20 ''\<newline>Description 1: A sturdy mouse for every day\<newline>titles:\<newline>Title 1: Great Wireless Mouse'' 1 =
      [''A sturdy mouse for every day titles: Title 1: Great Wireless Mouse'']"
    by code_simp+
  have "(0::nat) < 95" and "(0::nat) < 58" by simp_all
  from descriptions_before_titles [OF d t this(1), of 1 1 1] b
  have 1: "sections ?rt = Some ([], take (133 - (0 + 13)) (drop (0 + 13) ?rt), drop (133 + 8) ?rt)"
    and 2: "parse_gemini_response ?rt 1 1 1 =
      ([], parse_items ''Description'' [''BULLETS:''] 20 (take (133 - (0 + 13)) (drop (0 + 13) ?rt)) 1,
       parse_items ''Bullet'' [] 10 (drop (133 + 8) ?rt) 1)"
    by blast+
  from descriptions_before_titles [OF d' t' \<open>(0::nat) < 58\<close>, of 1 1 1] n
  have 3: "sections ?st = Some ([], drop (0 + 13) ?st, [])"
    and 4: "parse_gemini_response ?st 1 1 1 =
      ([], parse_items ''Description'' [''BULLETS:''] 20 (drop (0 + 13) ?st) 1, [])"
    by blast+
  show ?thesis
    using d t b d' t' n 1 2 3 4 unfolding c1 c2 c3 p1 p2 p3 by (intro conjI)
qed

section \<open>The parser after an internal error\<close>

lemma foldl_logged_raised:
  "foldl (item_step_logged con word stops minlen sec) (True, acc) is = (True, acc)"
  by (induction "is") (simp_all add: item_step_logged_def)

lemma prefix_foldl_item_step: "prefix acc (foldl (item_step word stops minlen sec) acc is)"
proof (induction "is" arbitrary: acc)
  case Nil
  show ?case by simp
next
  case (Cons i "is")
  have "prefix acc (item_step word stops minlen sec acc i)"
    by (rule prefix_item_step)
  also have "prefix \<dots> (foldl (item_step word stops minlen sec) (item_step word stops minlen sec acc i) is)"
    by (rule Cons.IH)
  finally show ?case by simp
qed

lemma item_step_logged_acc:
  "item_step_logged con word stops minlen sec (False, acc) i = (r, acc') \<Longrightarrow>
     acc' = item_step word stops minlen sec acc i"
  by (auto simp: item_step_logged_def item_step_def Let_def split: option.splits if_splits)

lemma foldl_logged:
  "foldl (item_step_logged con word stops minlen sec) (False, acc) is = (r, acc') \<Longrightarrow>
     prefix acc' (foldl (item_step word stops minlen sec) acc is) \<and>
     (\<not> r \<longrightarrow> acc' = foldl (item_step word stops minlen sec) acc is)"
proof (induction "is" arbitrary: acc)
  case Nil
  then show ?case by simp
next
  case (Cons i "is")
  obtain r1 a1 where s: "item_step_logged con word stops minlen sec (False, acc) i = (r1, a1)"
    by (cases "item_step_logged con word stops minlen sec (False, acc) i") auto
  then have a1: "a1 = item_step word stops minlen sec acc i"
    by (rule item_step_logged_acc)
  show ?case
  proof (cases r1)
    case True
    with Cons.prems s have "r = True" "acc' = a1"
      by (simp_all add: foldl_logged_raised)
    then show ?thesis
      using a1 by (simp add: prefix_foldl_item_step)
  next
    case False
    with Cons.prems s have "foldl (item_step_logged con word stops minlen sec) (False, a1) is = (r, acc')"
      by simp
    from Cons.IH [OF this] show ?thesis
      using a1 by simp
  qed
qed

lemma parse_items_logged:
  "parse_items_logged con word stops minlen sec count = (r, acc) \<Longrightarrow>
     prefix acc (parse_items word stops minlen sec count) \<and>
     (\<not> r \<longrightarrow> acc = parse_items word stops minlen sec count)"
  unfolding parse_items_logged_def parse_items_def by (rule foldl_logged)

lemma item_step_logged_open:
  "(\<forall>l. con l) \<Longrightarrow>
     item_step_logged con word stops minlen sec (False, acc) i = (False, item_step word stops minlen sec acc i)"
  by (simp add: item_step_logged_def item_step_def Let_def split: option.splits)

lemma foldl_logged_open:
  "(\<forall>l. con l) \<Longrightarrow>
     foldl (item_step_logged con word stops minlen sec) (False, acc) is =
       (False, foldl (item_step word stops minlen sec) acc is)"
  by (induction "is" arbitrary: acc) (simp_all add: item_step_logged_open)

lemma parse_items_logged_open:
  "(\<forall>l. con l) \<Longrightarrow>
     parse_items_logged con word stops minlen sec count = (False, parse_items word stops minlen sec count)"
  by (simp add: parse_items_logged_def parse_items_def foldl_logged_open)

lemma parse_body_open:
  "(\<forall>l. con l) \<Longrightarrow> parse_body con rt tc dc bc = (False, parse_gemini_response rt tc dc bc)"
  by (simp add: parse_body_def parse_gemini_response_def parse_items_logged_open split: option.splits)

lemma parse_body_prefix:
  assumes "parse_body con rt tc dc bc = (r, ts, ds, bs)"
    and "parse_gemini_response rt tc dc bc = (ts', ds', bs')"
  shows "prefix ts ts' \<and> prefix ds ds' \<and> prefix bs bs'"
proof (cases "sections rt")
  case None
  with assms show ?thesis
    by (auto simp: parse_body_def parse_gemini_response_def split: if_splits)
next
  case (Some s)
  obtain tsec dsec bsec where s: "s = (tsec, dsec, bsec)"
    using prod_cases3 by blast
  obtain r1 a1 where 1: "parse_items_logged con ''Title'' [''DESCRIPTIONS:''] 10 tsec tc = (r1, a1)"
    by (cases "parse_items_logged con ''Title'' [''DESCRIPTIONS:''] 10 tsec tc") auto
  obtain r2 a2 where 2: "parse_items_logged con ''Description'' [''BULLETS:''] 20 dsec dc = (r2, a2)"
    by (cases "parse_items_logged con ''Description'' [''BULLETS:''] 20 dsec dc") auto
  obtain r3 a3 where 3: "parse_items_logged con ''Bullet'' [] 10 bsec bc = (r3, a3)"
    by (cases "parse_items_logged con ''Bullet'' [] 10 bsec bc") auto
  note p = parse_items_logged [OF 1] parse_items_logged [OF 2] parse_items_logged [OF 3]
  from assms(2) Some s have e: "ts' = parse_items ''Title'' [''DESCRIPTIONS:''] 10 tsec tc"
    "ds' = parse_items ''Description'' [''BULLETS:''] 20 dsec dc"
    "bs' = parse_items ''Bullet'' [] 10 bsec bc"
    by (simp_all add: parse_gemini_response_def)
  from assms(1) Some s 1 2 3 show ?thesis
    unfolding e using p
    by (cases r1; cases r2) (auto simp: parse_body_def split: if_splits)
qed

text \<open>
  C4 (as amended). As long as the console write of its handler succeeds, the parser does not
  raise, for any text and any counts: it returns the three lists as they are when the
  \<open>try\<close> block is left. After an internal error these are the items accumulated so far, each
  list the beginning of what the parser finds with a working console; they are not emptied.
  With a console that takes every line there is no internal error.
\<close>

theorem parser_returns_what_it_has:
  "(con Parsing_error \<longrightarrow>
      parse_gemini_response_logged con rt tc dc bc = Inr (snd (parse_body con rt tc dc bc))) \<and>
   (\<forall>ts ds bs. parse_body con rt tc dc bc = (True, ts, ds, bs) \<longrightarrow>
      prefix ts (fst (parse_gemini_response rt tc dc bc)) \<and>
      prefix ds (fst (snd (parse_gemini_response rt tc dc bc))) \<and>
      prefix bs (snd (snd (parse_gemini_response rt tc dc bc)))) \<and>
   ((\<forall>l. con l) \<longrightarrow>
      parse_body con rt tc dc bc = (False, parse_gemini_response rt tc dc bc) \<and>
      parse_gemini_response_logged con rt tc dc bc = Inr (parse_gemini_response rt tc dc bc))"
proof -
  have 1: "parse_gemini_response_logged con rt tc dc bc = Inr (snd (parse_body con rt tc dc bc))"
    if "con Parsing_error"
    using that by (cases "parse_body con rt tc dc bc") (simp add: parse_gemini_response_logged_def split: bool.splits)
  have 2: "prefix ts (fst (parse_gemini_response rt tc dc bc)) \<and>
      prefix ds (fst (snd (parse_gemini_response rt tc dc bc))) \<and>
      prefix bs (snd (snd (parse_gemini_response rt tc dc bc)))"
    if "parse_body con rt tc dc bc = (True, ts, ds, bs)" for ts ds bs
    using parse_body_prefix [OF that, of "fst (parse_gemini_response rt tc dc bc)"
        "fst (snd (parse_gemini_response rt tc dc bc))" "snd (snd (parse_gemini_response rt tc dc bc))"]
    by simp
  have 3: "parse_body con rt tc dc bc = (False, parse_gemini_response rt tc dc bc) \<and>
      parse_gemini_response_logged con rt tc dc bc = Inr (parse_gemini_response rt tc dc bc)"
    if "\<forall>l. con l"
    using that by (simp add: parse_body_open parse_gemini_response_logged_def)
  from 1 2 3 show ?thesis by blast
qed

theorem parser_returns_what_it_has_witness:
  "console_without (Found ''Title'' 2 ''Quiet Mechanical Keyboard'') Parsing_error \<and>
   parse_body (console_without (Found ''Title'' 2 ''Quiet Mechanical Keyboard''))
     ''TITLES: Title 1: Great Wireless Mouse Title 2: Quiet Mechanical Keyboard Title 3: Bright Desk Lamp'' 3 1 1 =
     (True, [''Great Wireless Mouse'', ''Quiet Mechanical Keyboard''], [], []) \<and>
   parse_gemini_response_logged (console_without (Found ''Title'' 2 ''Quiet Mechanical Keyboard''))
     ''TITLES: Title 1: Great Wireless Mouse Title 2: Quiet Mechanical Keyboard Title 3: Bright Desk Lamp'' 3 1 1 =
     Inr ([''Great Wireless Mouse'', ''Quiet Mechanical Keyboard''], [], []) \<and>
   parse_gemini_response
     ''TITLES: Title 1: Great Wireless Mouse Title 2: Quiet Mechanical Keyboard Title 3: Bright Desk Lamp'' 3 1 1 =
     ([''Great Wireless Mouse'', ''Quiet Mechanical Keyboard'', ''Bright Desk Lamp''], [], []) \<and>
   prefix [''Great Wireless Mouse'', ''Quiet Mechanical Keyboard'']
     [''Great Wireless Mouse'', ''Quiet Mechanical Keyboard'', ''Bright Desk Lamp''] \<and>
   parse_gemini_response_logged open_console
     ''TITLES: Title 1: Great Wireless Mouse Title 2: Quiet Mechanical Keyboard Title 3: Bright Desk Lamp'' 3 1 1 =
     Inr ([''Great Wireless Mouse'', ''Quiet Mechanical Keyboard'', ''Bright Desk Lamp''], [], [])"
proof -
  let ?con = "console_without (Found ''Title'' 2 ''Quiet Mechanical Keyboard'')"
  let ?rt = "''TITLES: Title 1: Great Wireless Mouse Title 2: Quiet Mechanical Keyboard Title 3: Bright Desk Lamp''"
  have a: "?con Parsing_error"
    by (simp add: console_without_def)
  have b: "parse_body ?con ?rt 3 1 1 =
     (True, [''Great Wireless Mouse'', ''Quiet Mechanical Keyboard''], [], [])"
    by code_simp
  have c: "parse_gemini_response ?rt 3 1 1 =
     ([''Great Wireless Mouse'', ''Quiet Mechanical Keyboard'', ''Bright Desk Lamp''], [], [])"
    by code_simp
  have o: "\<forall>l. open_console l"
    by (simp add: open_console_def)
  from parser_returns_what_it_has [of ?con ?rt 3 1 1] a
  have 1: "parse_gemini_response_logged ?con ?rt 3 1 1 = Inr (snd (parse_body ?con ?rt 3 1 1))"
    by blast
  from parser_returns_what_it_has [of ?con ?rt 3 1 1] b
  have 2: "prefix [''Great Wireless Mouse'', ''Quiet Mechanical Keyboard'']
      (fst (parse_gemini_response ?rt 3 1 1))"
    by blast
  from parser_returns_what_it_has [of open_console ?rt 3 1 1] o
  have 3: "parse_gemini_response_logged open_console ?rt 3 1 1 = Inr (parse_gemini_response ?rt 3 1 1)"
    by blast
  from a b c 1 2 3 show ?thesis by simp
qed

theorem parser_internal_error_counterexample:
  "parse_body (console_without (Found ''Title'' 1 ''Great Wireless Mouse''))
     ''TITLES: Title 1: Great Wireless Mouse'' 1 1 1 = (True, [''Great Wireless Mouse''], [], []) \<and>
   parse_gemini_response_logged (console_without (Found ''Title'' 1 ''Great Wireless Mouse''))
     ''TITLES: Title 1: Great Wireless Mouse'' 1 1 1 = Inr ([''Great Wireless Mouse''], [], []) \<and>
   parse_gemini_response_logged closed_console ''TITLES: Title 1: Great Wireless Mouse'' 1 1 1 =
     Inl Print_failed"
  by code_simp

section \<open>Characters and numerals\<close>

lemma to_upper_cases:
  "to_upper c = c \<or> (c \<in> set ''abcdefghijklmnopqrstuvwxyz'' \<and> to_upper c \<in> set ''ABCDEFGHIJKLMNOPQRSTUVWXYZ'')"
  unfolding to_upper_def by (simp split: option.splits)

lemma to_upper_colon [simp]: "to_upper c = CHR '':'' \<longleftrightarrow> c = CHR '':''"
  using to_upper_cases [of c] by (auto simp: to_upper_def)

lemma to_upper_colon' [simp]: "CHR '':'' = to_upper c \<longleftrightarrow> c = CHR '':''"
  using to_upper_colon [of c] by metis

lemma digit_not_letter:
  "is_digit c \<Longrightarrow>
     c \<notin> set ''abcdefghijklmnopqrstuvwxyz'' \<and> c \<notin> set ''ABCDEFGHIJKLMNOPQRSTUVWXYZ''"
proof -
  assume "is_digit c"
  then consider "c = CHR ''0''" | "c = CHR ''1''" | "c = CHR ''2''" | "c = CHR ''3''" | "c = CHR ''4''"
    | "c = CHR ''5''" | "c = CHR ''6''" | "c = CHR ''7''" | "c = CHR ''8''" | "c = CHR ''9''"
    unfolding is_digit_def by fastforce
  then show ?thesis
    by cases simp_all
qed

lemma to_upper_digit: "is_digit c \<Longrightarrow> to_upper c = c"
  using to_upper_cases [of c] digit_not_letter [of c] by blast


lemma digit_not_space: "is_digit c \<Longrightarrow> \<not> is_space c"
  by (auto simp: is_digit_def is_space_def)



lemma is_digit_digit_char: "d < 10 \<Longrightarrow> is_digit (digit_char d)"
proof -
  assume "d < 10"
  then have "d \<in> {0, 1, 2, 3, 4, 5, 6, 7, 8, 9}" by auto
  then show ?thesis
    by (auto simp: is_digit_def digit_char_def)
qed

lemma dec_digits: "c \<in> set (dec n) \<Longrightarrow> is_digit c"
proof (induction n arbitrary: c rule: dec.induct)
  case (1 n)
  show ?case
  proof (cases "n < 10")
    case True
    with "1.prems" show ?thesis
      by (simp add: dec.simps [of n] is_digit_digit_char)
  next
    case False
    with "1.prems" have "c \<in> set (dec (n div 10)) \<or> c = digit_char (n mod 10)"
      by (auto simp: dec.simps [of n])
    then show ?thesis
      using "1.IH" False by (auto simp: is_digit_digit_char)
  qed
qed

lemma dec_not_Nil [simp]: "dec n \<noteq> []"
  by (simp add: dec.simps [of n])




lemma str_int_pos: "0 \<le> i \<Longrightarrow> str_int i = dec (nat i)"
  by (simp add: str_int_def)

section \<open>How the matcher walks a text\<close>







lemma to_upper_colon_val [simp]: "to_upper CHR '':'' = CHR '':''"
  by (simp add: to_upper_def)



lemma lits_Cons [simp]: "lits (c # w) = Lit c # lits w"
  by (simp add: lits_def)

lemma lits_Nil [simp]: "lits [] = []"
  by (simp add: lits_def)











section \<open>Labels in a text that follows the grammar\<close>

lemma space_not_letter:
  "is_space c \<Longrightarrow>
     c \<notin> set ''abcdefghijklmnopqrstuvwxyz'' \<and> c \<notin> set ''ABCDEFGHIJKLMNOPQRSTUVWXYZ''"
proof -
  assume "is_space c"
  then consider "c = CHR 0x09" | "c = CHR 0x0A" | "c = CHR 0x0B" | "c = CHR 0x0C" | "c = CHR 0x0D"
    | "c = CHR 0x1C" | "c = CHR 0x1D" | "c = CHR 0x1E" | "c = CHR 0x1F" | "c = CHR 0x20"
    unfolding is_space_def by fastforce
  then show ?thesis
    by cases simp_all
qed

lemma to_upper_space: "is_space c \<Longrightarrow> to_upper c = c"
  using to_upper_cases [of c] space_not_letter [of c] by blast


lemma is_space_blank [simp]: "is_space CHR '' ''" and is_space_newline [simp]: "is_space CHR 0x0A"
  by (simp_all add: is_space_def)


lemma dec_no_space: "c \<in> set (dec n) \<Longrightarrow> \<not> is_space c"
  using dec_digits digit_not_space by blast

lemma filter_dec [simp]: "filter (\<lambda>c. \<not> is_space c) (dec n) = dec n"
  by (simp add: filter_id_conv dec_no_space)












lemma to_upper_newline [simp]: "to_upper CHR 0x0A = CHR 0x0A"
  by (simp add: to_upper_space)







section \<open>Normalising a capture\<close>

lemma split_ws_Nil: "dropWhile is_space s = [] \<Longrightarrow> split_ws s = []"
proof -
  assume d: "dropWhile is_space s = []"
  have "split_ws s =
      (case dropWhile is_space s of
         [] \<Rightarrow> []
       | c # cs \<Rightarrow> (c # takeWhile (\<lambda>x. \<not> is_space x) cs) # split_ws (dropWhile (\<lambda>x. \<not> is_space x) cs))"
    by (rule split_ws.simps)
  also have "\<dots> = []"
    unfolding d by simp
  finally show ?thesis .
qed



lemma split_ws_empty [simp]: "split_ws [] = []"
  by (rule split_ws_Nil) simp







section \<open>The loop on a section that follows the grammar\<close>







section \<open>The markers of a text that follows the grammar\<close>

lemma str_upper_append [simp]: "str_upper (a @ b) = str_upper a @ str_upper b"
  by (simp add: str_upper_def)

lemma str_upper_Cons [simp]: "str_upper (c # s) = to_upper c # str_upper s"
  by (simp add: str_upper_def)

lemma str_upper_Nil [simp]: "str_upper [] = []"
  by (simp add: str_upper_def)

lemma length_str_upper [simp]: "length (str_upper s) = length s"
  by (simp add: str_upper_def)

lemma str_upper_dec [simp]: "str_upper (dec n) = dec n"
  unfolding str_upper_def by (rule map_idI) (simp add: dec_digits to_upper_digit)

lemma to_upper_blank [simp]: "to_upper CHR '' '' = CHR '' ''"
  by (simp add: to_upper_space)














end
